theory Spec2Isabelle
  imports Main
begin

section \<open>The loading store of \<^verbatim>\<open>src/hooks/useLoading.ts\<close>\<close>

text \<open>
  The store holds three fields: \<^verbatim>\<open>loadingCount: number\<close>,
  \<^verbatim>\<open>overrideState: boolean | null\<close> and
  \<^verbatim>\<open>localCounters: Record<string, number>\<close>. The global counter only ever
  receives \<open>+ 1\<close>, \<open>- 1\<close> and \<open>Math.max(0, _)\<close>, so it is an integer, modelled as
  \<open>int\<close> (a JavaScript number is exact on integers below \<open>2 ^ 53\<close>, a bound no
  sequence of calls considered here comes near).

  The record of local counters starts as the object literal \<^verbatim>\<open>{}\<close> and every later
  one is built by an object literal, so its prototype is \<^verbatim>\<open>Object.prototype\<close>.
  Reading \<^verbatim>\<open>localCounters[instanceId]\<close> therefore finds the own property of that
  name if there is one, else the member of \<^verbatim>\<open>Object.prototype\<close> of that name if
  there is one, and is \<^verbatim>\<open>undefined\<close> otherwise. What is read at a name such as
  \<^verbatim>\<open>toString\<close> is a function, not a number, and the arithmetic of the store then
  produces strings. The values that can stand in the record are modelled as they arise.

  The event emitter is imported from \<^verbatim>\<open>@/utils/EventEmitter\<close>. Each action of
  the store calls \<^verbatim>\<open>loadingEventTarget.emit\<close> a number of times; the model returns
  the list of these emissions in the order in which the action makes them. What the
  registered listeners do with an emission is outside the store.
\<close>

datatype event =
  Start  \<comment> \<open>\<^verbatim>\<open>emit('start', null)\<close>\<close>
| Stop  \<comment> \<open>\<^verbatim>\<open>emit('stop', null)\<close>\<close>
| Change bool bool  \<comment> \<open>\<^verbatim>\<open>emit('change', { isLoading, isOverrideState })\<close>\<close>

datatype jsvalue =
  Number int  \<comment> \<open>an integer\<close>
| Member string  \<comment> \<open>the member of \<^verbatim>\<open>Object.prototype\<close> of this name\<close>
| Text string nat
    \<comment> \<open>the string that the member of this name converts to, followed by so many
       characters \<^verbatim>\<open>1\<close>\<close>
| NaN

text \<open>The names of the members of \<^verbatim>\<open>Object.prototype\<close>.\<close>

definition objectPrototypeKeys :: "string list" where
  "objectPrototypeKeys =
     [''constructor'', ''__defineGetter__'', ''__defineSetter__'', ''hasOwnProperty'',
      ''__lookupGetter__'', ''__lookupSetter__'', ''isPrototypeOf'',
      ''propertyIsEnumerable'', ''toString'', ''valueOf'', ''__proto__'',
      ''toLocaleString'']"

record Store =
  loadingCount :: int
  overrideState :: "bool option"
  localCounters :: "string \<rightharpoonup> jsvalue"

definition initial :: Store where
  "initial = \<lparr>loadingCount = 0, overrideState = None, localCounters = Map.empty\<rparr>"

text \<open>\<^verbatim>\<open>obj[key]\<close>, with \<open>None\<close> for \<^verbatim>\<open>undefined\<close>.\<close>

definition readProperty :: "(string \<rightharpoonup> jsvalue) \<Rightarrow> string \<Rightarrow> jsvalue option" where
  "readProperty obj key =
     (case obj key of
        Some v \<Rightarrow> Some v
      | None \<Rightarrow> if key \<in> set objectPrototypeKeys then Some (Member key) else None)"

text \<open>\<^verbatim>\<open>v ?? 0\<close>: only \<^verbatim>\<open>undefined\<close> (and \<^verbatim>\<open>null\<close>) fall back.\<close>

definition orZero :: "jsvalue option \<Rightarrow> jsvalue" where
  "orZero v = (case v of None \<Rightarrow> Number 0 | Some w \<Rightarrow> w)"

text \<open>\<^verbatim>\<open>v + 1\<close>: addition on a number; a function, an object or a string is
  converted to a string and \<^verbatim>\<open>1\<close> is appended.\<close>

fun plusOne :: "jsvalue \<Rightarrow> jsvalue" where
  "plusOne (Number c) = Number (c + 1)"
| "plusOne (Member k) = Text k 1"
| "plusOne (Text k n) = Text k (Suc n)"
| "plusOne NaN = NaN"

text \<open>\<^verbatim>\<open>v > 0\<close>: a function, an object, or a string that is not a numeral converts
  to \<^verbatim>\<open>NaN\<close>, and every comparison with \<^verbatim>\<open>NaN\<close> is false.\<close>

fun greaterThanZero :: "jsvalue \<Rightarrow> bool" where
  "greaterThanZero (Number c) = (0 < c)"
| "greaterThanZero v = False"

text \<open>\<^verbatim>\<open>Math.max(0, v - 1)\<close>, which is \<^verbatim>\<open>NaN\<close> unless \<open>v\<close> is a number.\<close>

fun maxZeroMinusOne :: "jsvalue option \<Rightarrow> jsvalue" where
  "maxZeroMinusOne (Some (Number c)) = Number (max 0 (c - 1))"
| "maxZeroMinusOne v = NaN"

text \<open>\<^verbatim>\<open>get().overrideState ?? (get().loadingCount > 0)\<close>: the operator \<^verbatim>\<open>??\<close>
  falls back only on \<^verbatim>\<open>null\<close>, so an override of \<^verbatim>\<open>false\<close> is returned
  as it is.\<close>

definition isLoading :: "Store \<Rightarrow> bool" where
  "isLoading s = (case overrideState s of Some b \<Rightarrow> b | None \<Rightarrow> loadingCount s > 0)"

definition isGlobalLoading :: "Store \<Rightarrow> bool" where
  "isGlobalLoading s = isLoading s"

text \<open>The parameter \<^verbatim>\<open>instanceId?: string\<close> is tested by \<^verbatim>\<open>if (instanceId)\<close>:
  the test fails when the argument is missing and also when it is the empty string.\<close>

definition truthy :: "string option \<Rightarrow> bool" where
  "truthy instanceId = (case instanceId of None \<Rightarrow> False | Some k \<Rightarrow> k \<noteq> [])"

text \<open>\<^verbatim>\<open>get().localCounters[instanceId] ?? 0\<close>\<close>

definition getLocalCounter :: "string \<Rightarrow> Store \<Rightarrow> jsvalue" where
  "getLocalCounter instanceId s = orZero (readProperty (localCounters s) instanceId)"

text \<open>\<^verbatim>\<open>(get().localCounters[instanceId] ?? 0) > 0\<close>\<close>

definition isLocalLoading :: "string \<Rightarrow> Store \<Rightarrow> bool" where
  "isLocalLoading instanceId s = greaterThanZero (getLocalCounter instanceId s)"

definition startLoading :: "string option \<Rightarrow> Store \<Rightarrow> Store \<times> event list" where
  "startLoading instanceId s =
    (let prevIsLoading = isLoading s;
         s1 = s\<lparr>loadingCount := loadingCount s + 1\<rparr>;
         s2 = (if truthy instanceId
               then s1\<lparr>localCounters := (localCounters s1)
                      (the instanceId \<mapsto> plusOne (getLocalCounter (the instanceId) s1))\<rparr>
               else s1);
         newIsLoading = isLoading s2
     in (s2, (if newIsLoading \<and> \<not> prevIsLoading then [Start] else [])
             @ [Change newIsLoading (overrideState s2 \<noteq> None)]))"

text \<open>In its guarded branch \<^verbatim>\<open>stopLoading\<close> reads
  \<^verbatim>\<open>state.localCounters[instanceId]\<close> without the fallback.\<close>

definition stopLoading :: "string option \<Rightarrow> Store \<Rightarrow> Store \<times> event list" where
  "stopLoading instanceId s =
    (let prevIsLoading = isLoading s;
         localCounter = (if truthy instanceId then getLocalCounter (the instanceId) s
                         else Number 0);
         s1 = (if truthy instanceId \<and> greaterThanZero localCounter
               then s\<lparr>loadingCount := max 0 (loadingCount s - 1),
                      localCounters := (localCounters s)
                        (the instanceId \<mapsto>
                           maxZeroMinusOne (readProperty (localCounters s) (the instanceId)))\<rparr>
               else s);
         newIsLoading = isLoading s1
     in (s1, (if \<not> newIsLoading \<and> prevIsLoading then [Stop] else [])
             @ [Change newIsLoading (overrideState s1 \<noteq> None)]))"

definition overrideLoading :: "bool option \<Rightarrow> Store \<Rightarrow> Store \<times> event list" where
  "overrideLoading state s =
    (let prevIsLoading = isLoading s;
         s1 = s\<lparr>overrideState := state\<rparr>;
         newIsLoading = isLoading s1
     in (s1, (if newIsLoading \<and> \<not> prevIsLoading then [Start]
              else if \<not> newIsLoading \<and> prevIsLoading then [Stop] else [])
             @ [Change newIsLoading (state \<noteq> None)]))"

subsection \<open>Sequences of calls\<close>

datatype call =
  StartLoading "string option"
| StopLoading "string option"
| OverrideLoading "bool option"

fun step :: "call \<Rightarrow> Store \<Rightarrow> Store \<times> event list" where
  "step (StartLoading instanceId) s = startLoading instanceId s"
| "step (StopLoading instanceId) s = stopLoading instanceId s"
| "step (OverrideLoading state) s = overrideLoading state s"

text \<open>The store after a sequence of calls, made one after the other.\<close>

fun exec :: "call list \<Rightarrow> Store \<Rightarrow> Store" where
  "exec [] s = s"
| "exec (c # cs) s = exec cs (fst (step c s))"

text \<open>The calls of a sequence that start loading with a failing test
  \<^verbatim>\<open>if (instanceId)\<close>: these raise the global counter and no local one.\<close>

fun unkeyedStarts :: "call list \<Rightarrow> nat" where
  "unkeyedStarts [] = 0"
| "unkeyedStarts (StartLoading instanceId # cs) =
     (if truthy instanceId then unkeyedStarts cs else Suc (unkeyedStarts cs))"
| "unkeyedStarts (c # cs) = unkeyedStarts cs"

text \<open>The calls of a sequence that start loading with a key that names a member of
  \<^verbatim>\<open>Object.prototype\<close>: these raise the global counter and leave a string in the
  record.\<close>

fun inheritedStarts :: "call list \<Rightarrow> nat" where
  "inheritedStarts [] = 0"
| "inheritedStarts (StartLoading instanceId # cs) =
     (if truthy instanceId \<and> the instanceId \<in> set objectPrototypeKeys
      then Suc (inheritedStarts cs) else inheritedStarts cs)"
| "inheritedStarts (c # cs) = inheritedStarts cs"

text \<open>The number that a value of the record stands for, 0 when it is not a number;
  and the sum of the numeric local counters of the store.\<close>

fun numberOf :: "jsvalue \<Rightarrow> int" where
  "numberOf (Number c) = c"
| "numberOf v = 0"

definition sumLocalCounters :: "Store \<Rightarrow> int" where
  "sumLocalCounters s = (\<Sum>k \<in> dom (localCounters s). numberOf (the (localCounters s k)))"

subsection \<open>The hook \<^verbatim>\<open>useLoading\<close>\<close>

text \<open>The hook fixes \<^verbatim>\<open>instanceId = useId()\<close> and hands out closures over it. The
  identifier is a parameter of the model.\<close>

definition localStartLoading :: "string \<Rightarrow> Store \<Rightarrow> Store \<times> event list" where
  "localStartLoading instanceId s = startLoading (Some instanceId) s"

definition localStopLoading :: "string \<Rightarrow> Store \<Rightarrow> Store \<times> event list" where
  "localStopLoading instanceId s =
    (if isLocalLoading instanceId s then stopLoading (Some instanceId) s else (s, []))"

text \<open>
  \<^verbatim>\<open>asyncUseLoading\<close> starts loading, awaits the promise and stops loading in a
  \<^verbatim>\<open>finally\<close> block. The promise settles with a rejection (\<open>Inl\<close>) or a value
  (\<open>Inr\<close>); while the function is suspended at \<^verbatim>\<open>await\<close>, other code may call
  the store: this is the sequence \<open>during\<close>. The \<^verbatim>\<open>finally\<close> block neither returns
  nor throws, so the function completes the way the promise did.
\<close>

definition asyncUseLoading ::
    "string \<Rightarrow> call list \<Rightarrow> 'e + 'r \<Rightarrow> Store \<Rightarrow> Store \<times> ('e + 'r)" where
  "asyncUseLoading instanceId during asyncFunction s =
    (let s1 = fst (localStartLoading instanceId s);
         s2 = exec during s1
     in (case asyncFunction of
           Inr v \<Rightarrow> (let s3 = fst (localStopLoading instanceId s2) in (s3, Inr v))
         | Inl e \<Rightarrow> (let s3 = fst (localStopLoading instanceId s2) in (s3, Inl e))))"

subsection \<open>The invariant of the store\<close>

text \<open>A store is consistent for \<open>n\<close> when it has finitely many local counters and none
  for the empty key, every entry at a name of \<^verbatim>\<open>Object.prototype\<close> is a string
  and every other entry a number that is not negative, and its global counter is the sum
  of the numeric entries plus \<open>n\<close>.\<close>

definition consistent :: "nat \<Rightarrow> Store \<Rightarrow> bool" where
  "consistent n s \<longleftrightarrow>
     finite (dom (localCounters s)) \<and> localCounters s [] = None
     \<and> (\<forall>k v. localCounters s k = Some v \<longrightarrow>
           (if k \<in> set objectPrototypeKeys then \<exists>m. v = Text k m
            else \<exists>c. v = Number c \<and> 0 \<le> c))
     \<and> loadingCount s = sumLocalCounters s + int n"

text \<open>The instance key that a call passes, if any.\<close>

fun callKey :: "call \<Rightarrow> string option" where
  "callKey (StartLoading instanceId) = instanceId"
| "callKey (StopLoading instanceId) = instanceId"
| "callKey (OverrideLoading state) = None"

section \<open>Single calls\<close>

lemma exec_append: "exec (cs @ ds) s = exec ds (exec cs s)"
  by (induction cs arbitrary: s) simp_all

text \<open>
  Claim C2. \<^verbatim>\<open>isGlobalLoading()\<close> returns the override state when there is one and
  \<open>loadingCount > 0\<close> when there is none. After \<^verbatim>\<open>overrideLoading(b)\<close> with a boolean
  \<open>b\<close> it returns \<open>b\<close> whatever the counter is, and after \<^verbatim>\<open>overrideLoading(null)\<close>
  it returns \<open>loadingCount > 0\<close> for the counter as it stands; overriding never changes
  a counter.
\<close>

theorem isGlobalLoading_override_precedence:
  "isGlobalLoading s = (case overrideState s of Some b \<Rightarrow> b | None \<Rightarrow> 0 < loadingCount s)
   \<and> isGlobalLoading (fst (overrideLoading (Some b) s)) = b
   \<and> isGlobalLoading (fst (overrideLoading None s)) = (0 < loadingCount s)
   \<and> loadingCount (fst (overrideLoading st s)) = loadingCount s
   \<and> localCounters (fst (overrideLoading st s)) = localCounters s"
  by (simp add: isGlobalLoading_def isLoading_def overrideLoading_def Let_def)

text \<open>
  Claim C3. Every call of \<^verbatim>\<open>startLoading\<close>, \<^verbatim>\<open>stopLoading\<close> or
  \<^verbatim>\<open>overrideLoading\<close>, in any state, emits the following events in this order: a
  start event when the derived boolean goes from false to true, or a stop event when it
  goes from true to false, or neither when it does not change; then one change event,
  which carries the new boolean and whether an override is in place. So there is exactly
  one change event, it comes last, and a start or stop event is there if and only if the
  boolean made the matching transition.
\<close>

theorem step_emits_transition_then_change:
  "snd (step c s) =
     (if \<not> isLoading s \<and> isLoading (fst (step c s)) then [Start]
      else if isLoading s \<and> \<not> isLoading (fst (step c s)) then [Stop]
      else [])
     @ [Change (isLoading (fst (step c s))) (overrideState (fst (step c s)) \<noteq> None)]"
proof (cases c)
  case (StartLoading instanceId)
  then show ?thesis
    by (cases "overrideState s")
       (auto simp: startLoading_def isLoading_def Let_def)
next
  case (StopLoading instanceId)
  then show ?thesis
    by (cases "overrideState s")
       (auto simp: stopLoading_def isLoading_def Let_def)
next
  case (OverrideLoading state)
  then show ?thesis
    by (auto simp: overrideLoading_def isLoading_def Let_def)
qed

text \<open>
  Claim C6, as amended. A \<^verbatim>\<open>stopLoading\<close> call without an instance key goes
  through the same gate as every other call and never passes it: in every state it
  leaves the store as it is, global counter included, and emits one change event only.
\<close>

theorem stopLoading_unkeyed_unchanged:
  "stopLoading None s = (s, [Change (isLoading s) (overrideState s \<noteq> None)])"
  by (simp add: stopLoading_def truthy_def Let_def)

text \<open>Claim C6 as it is written asks for a state in which an unkeyed
  \<^verbatim>\<open>stopLoading\<close> lowers the global counter. There is none.\<close>

theorem stopLoading_unkeyed_decrement_counterexample:
  "\<not> (\<exists>s. loadingCount (fst (stopLoading None s)) < loadingCount s)"
  by (simp add: stopLoading_def truthy_def Let_def)

section \<open>Reachable states\<close>

lemma sum_dom_upd:
  fixes m :: "'a \<rightharpoonup> 'b" and f :: "'b \<Rightarrow> int"
  assumes "finite (dom m)"
  shows "(\<Sum>k \<in> dom (m(a \<mapsto> v)). f (the ((m(a \<mapsto> v)) k)))
         = (\<Sum>k \<in> dom m. f (the (m k))) - (case m a of None \<Rightarrow> 0 | Some c \<Rightarrow> f c) + f v"
proof (cases "m a")
  case None
  then have notin: "a \<notin> dom m" by auto
  have d: "dom (m(a \<mapsto> v)) = insert a (dom m)" by simp
  have "(\<Sum>k \<in> insert a (dom m). f (the ((m(a \<mapsto> v)) k)))
        = f (the ((m(a \<mapsto> v)) a)) + (\<Sum>k \<in> dom m. f (the ((m(a \<mapsto> v)) k)))"
    using assms notin by (rule sum.insert)
  moreover have "(\<Sum>k \<in> dom m. f (the ((m(a \<mapsto> v)) k))) = (\<Sum>k \<in> dom m. f (the (m k)))"
    using notin by (intro sum.cong) auto
  ultimately show ?thesis unfolding d using None by simp
next
  case (Some c)
  then have ain: "a \<in> dom m" by auto
  then have eq: "dom (m(a \<mapsto> v)) = dom m" by auto
  have "(\<Sum>k \<in> dom m. f (the ((m(a \<mapsto> v)) k)))
        = f (the ((m(a \<mapsto> v)) a)) + (\<Sum>k \<in> dom m - {a}. f (the ((m(a \<mapsto> v)) k)))"
    using assms ain by (rule sum.remove)
  also have "(\<Sum>k \<in> dom m - {a}. f (the ((m(a \<mapsto> v)) k))) = (\<Sum>k \<in> dom m - {a}. f (the (m k)))"
    by (intro sum.cong) auto
  finally have 1: "(\<Sum>k \<in> dom m. f (the ((m(a \<mapsto> v)) k))) = f v + (\<Sum>k \<in> dom m - {a}. f (the (m k)))"
    by simp
  have 2: "(\<Sum>k \<in> dom m. f (the (m k))) = f c + (\<Sum>k \<in> dom m - {a}. f (the (m k)))"
    using sum.remove [OF assms ain, of "\<lambda>k. f (the (m k))"] Some by simp
  show ?thesis using 1 2 Some eq by simp
qed

lemma sum_dom_ge:
  fixes m :: "'a \<rightharpoonup> 'b" and f :: "'b \<Rightarrow> int"
  assumes "finite (dom m)" and "\<And>k c. m k = Some c \<Longrightarrow> 0 \<le> f c"
  shows "(case m a of None \<Rightarrow> 0 | Some c \<Rightarrow> f c) \<le> (\<Sum>k \<in> dom m. f (the (m k)))"
proof (cases "m a")
  case None
  have "0 \<le> (\<Sum>k \<in> dom m. f (the (m k)))"
    using assms(2) by (intro sum_nonneg) auto
  then show ?thesis using None by simp
next
  case (Some c)
  then have ain: "a \<in> dom m" by auto
  have "(\<Sum>k \<in> dom m. f (the (m k))) = f c + (\<Sum>k \<in> dom m - {a}. f (the (m k)))"
    using sum.remove [OF assms(1) ain, of "\<lambda>k. f (the (m k))"] Some by simp
  moreover have "0 \<le> (\<Sum>k \<in> dom m - {a}. f (the (m k)))"
    using assms(2) by (intro sum_nonneg) auto
  ultimately show ?thesis using Some by simp
qed

lemma consistent_initial: "consistent 0 initial"
  by (simp add: consistent_def initial_def sumLocalCounters_def)

lemma consistent_entry:
  assumes "consistent n s" and "localCounters s k = Some v"
  shows "if k \<in> set objectPrototypeKeys then \<exists>m. v = Text k m
         else \<exists>c. v = Number c \<and> 0 \<le> c"
  using assms unfolding consistent_def by blast

lemma consistent_entry_nonneg:
  assumes "consistent n s" and "localCounters s k = Some v"
  shows "0 \<le> numberOf v"
  using consistent_entry [OF assms] by (auto split: if_splits)

lemma consistent_numberOf_le:
  assumes "consistent n s"
  shows "numberOf (getLocalCounter k s) \<le> loadingCount s"
proof -
  have fin: "finite (dom (localCounters s))" using assms by (simp add: consistent_def)
  have "(case localCounters s k of None \<Rightarrow> 0 | Some c \<Rightarrow> numberOf c) \<le> sumLocalCounters s"
    unfolding sumLocalCounters_def
    using fin consistent_entry_nonneg [OF assms] by (rule sum_dom_ge)
  moreover have "numberOf (getLocalCounter k s)
                 = (case localCounters s k of None \<Rightarrow> 0 | Some c \<Rightarrow> numberOf c)"
    by (simp add: getLocalCounter_def readProperty_def orZero_def split: option.splits)
  ultimately show ?thesis using assms by (simp add: consistent_def)
qed

lemma consistent_numberOf_nonneg: "consistent n s \<Longrightarrow> 0 \<le> numberOf (getLocalCounter k s)"
  using consistent_entry_nonneg [of n s k]
  by (auto simp: getLocalCounter_def readProperty_def orZero_def split: option.splits)

lemma consistent_sum_nonneg:
  assumes "consistent n s"
  shows "0 \<le> sumLocalCounters s"
  unfolding sumLocalCounters_def
proof (rule sum_nonneg)
  fix k assume "k \<in> dom (localCounters s)"
  then obtain v where "localCounters s k = Some v" by auto
  then show "0 \<le> numberOf (the (localCounters s k))"
    using consistent_entry_nonneg [OF assms] by simp
qed

text \<open>What a consistent store holds at a key.\<close>

lemma consistent_read_plain:
  assumes "consistent n s" and "k \<notin> set objectPrototypeKeys"
  shows "\<exists>c. getLocalCounter k s = Number c \<and> 0 \<le> c"
  using assms
  by (cases "localCounters s k")
     (auto simp: consistent_def getLocalCounter_def readProperty_def orZero_def)

lemma consistent_read_inherited:
  assumes "consistent n s" and "k \<in> set objectPrototypeKeys"
  shows "getLocalCounter k s = Member k \<or> (\<exists>m. getLocalCounter k s = Text k m)"
  using assms
  by (cases "localCounters s k")
     (auto simp: consistent_def getLocalCounter_def readProperty_def orZero_def)

lemma consistent_gate_open:
  assumes "consistent n s" and "greaterThanZero (getLocalCounter k s)"
  shows "k \<noteq> [] \<and> k \<notin> set objectPrototypeKeys
         \<and> (\<exists>c. 0 < c \<and> localCounters s k = Some (Number c))"
proof -
  have plain: "k \<notin> set objectPrototypeKeys"
    using consistent_read_inherited [OF assms(1), of k] assms(2) by auto
  obtain c where c: "getLocalCounter k s = Number c" "0 < c"
    using consistent_read_plain [OF assms(1) plain] assms(2) by auto
  then have own: "localCounters s k = Some (Number c)"
    using plain
    by (auto simp: getLocalCounter_def readProperty_def orZero_def split: option.splits)
  then have "k \<noteq> []" using assms(1) by (auto simp: consistent_def)
  then show ?thesis using plain own c(2) by blast
qed

lemma consistent_startLoading:
  assumes "consistent n s"
  shows "consistent (n + unkeyedStarts [StartLoading i] + inheritedStarts [StartLoading i])
           (fst (startLoading i s))"
proof (cases "truthy i")
  case False
  then show ?thesis using assms
    by (simp add: startLoading_def Let_def consistent_def sumLocalCounters_def)
next
  case True
  then obtain k where k: "i = Some k" "k \<noteq> []"
    by (auto simp: truthy_def split: option.splits)
  let ?m = "localCounters s"
  let ?v = "plusOne (getLocalCounter k s)"
  have fin: "finite (dom ?m)" using assms by (simp add: consistent_def)
  have old: "(case ?m k of None \<Rightarrow> 0 | Some c \<Rightarrow> numberOf c) = numberOf (getLocalCounter k s)"
    by (simp add: getLocalCounter_def readProperty_def orZero_def split: option.splits)
  have sum: "(\<Sum>x \<in> dom (?m(k \<mapsto> ?v)). numberOf (the ((?m(k \<mapsto> ?v)) x)))
             = sumLocalCounters s - numberOf (getLocalCounter k s) + numberOf ?v"
    using sum_dom_upd [OF fin, of numberOf k ?v] old by (simp add: sumLocalCounters_def)
  have st: "fst (startLoading i s)
            = s\<lparr>loadingCount := loadingCount s + 1, localCounters := ?m(k \<mapsto> ?v)\<rparr>"
    using k by (simp add: startLoading_def Let_def truthy_def getLocalCounter_def)
  show ?thesis
  proof (cases "k \<in> set objectPrototypeKeys")
    case inh: True
    then have "?v = Text k 1 \<or> (\<exists>m. ?v = Text k (Suc m))"
      using consistent_read_inherited [OF assms inh] by auto
    then have v: "\<exists>m. ?v = Text k m" "numberOf ?v = 0" by auto
    have o: "numberOf (getLocalCounter k s) = 0"
      using consistent_read_inherited [OF assms inh] by auto
    show ?thesis
      unfolding st using assms k inh v o sum
      by (auto simp: consistent_def sumLocalCounters_def truthy_def)
  next
    case plain: False
    then obtain c where c: "getLocalCounter k s = Number c" "0 \<le> c"
      using consistent_read_plain [OF assms] by blast
    show ?thesis
      unfolding st using assms k plain c sum
      by (auto simp: consistent_def sumLocalCounters_def truthy_def)
  qed
qed

lemma stopLoading_gate_closed:
  "\<not> (truthy i \<and> greaterThanZero (getLocalCounter (the i) s)) \<Longrightarrow> fst (stopLoading i s) = s"
  by (auto simp: stopLoading_def Let_def)

lemma stopLoading_gate_open:
  assumes "consistent n s" and "i = Some k" and "greaterThanZero (getLocalCounter k s)"
  shows "fst (stopLoading i s) =
           s\<lparr>loadingCount := loadingCount s - 1,
             localCounters := (localCounters s)
               (k \<mapsto> Number (numberOf (getLocalCounter k s) - 1))\<rparr>"
proof -
  obtain c where c: "k \<noteq> []" "0 < c" "localCounters s k = Some (Number c)"
    using consistent_gate_open [OF assms(1) assms(3)] by blast
  then have g: "getLocalCounter k s = Number c"
    by (simp add: getLocalCounter_def readProperty_def orZero_def)
  have "1 \<le> loadingCount s"
    using consistent_numberOf_le [OF assms(1), of k] g c(2) by simp
  then show ?thesis using assms(2) c g
    by (simp add: stopLoading_def Let_def truthy_def readProperty_def max_def)
qed

lemma consistent_stopLoading:
  assumes "consistent n s"
  shows "consistent n (fst (stopLoading i s))"
proof (cases "truthy i \<and> greaterThanZero (getLocalCounter (the i) s)")
  case False
  then show ?thesis using assms by (simp add: stopLoading_gate_closed)
next
  case True
  then obtain k where k: "i = Some k" "greaterThanZero (getLocalCounter k s)"
    by (auto simp: truthy_def split: option.splits)
  obtain c where c: "k \<noteq> []" "k \<notin> set objectPrototypeKeys" "0 < c"
      "localCounters s k = Some (Number c)"
    using consistent_gate_open [OF assms k(2)] by blast
  then have g: "getLocalCounter k s = Number c"
    by (simp add: getLocalCounter_def readProperty_def orZero_def)
  let ?m = "localCounters s"
  have fin: "finite (dom ?m)" using assms by (simp add: consistent_def)
  have sum: "(\<Sum>x \<in> dom (?m(k \<mapsto> Number (c - 1))). numberOf (the ((?m(k \<mapsto> Number (c - 1))) x)))
             = sumLocalCounters s - 1"
    using sum_dom_upd [OF fin, of numberOf k "Number (c - 1)"] c(4)
    by (simp add: sumLocalCounters_def)
  have eq: "fst (stopLoading i s) =
           s\<lparr>loadingCount := loadingCount s - 1,
             localCounters := ?m(k \<mapsto> Number (c - 1))\<rparr>"
    using stopLoading_gate_open [OF assms k] g by simp
  show ?thesis
    unfolding eq using assms c sum
    by (auto simp: consistent_def sumLocalCounters_def)
qed

lemma consistent_overrideLoading:
  "consistent n s \<Longrightarrow> consistent n (fst (overrideLoading st s))"
  by (simp add: overrideLoading_def Let_def consistent_def sumLocalCounters_def)

lemma consistent_step:
  assumes "consistent n s"
  shows "consistent (n + unkeyedStarts [c] + inheritedStarts [c]) (fst (step c s))"
proof (cases c)
  case (StartLoading i)
  show ?thesis unfolding StartLoading step.simps using assms by (rule consistent_startLoading)
next
  case (StopLoading i)
  show ?thesis unfolding StopLoading using assms by (simp add: consistent_stopLoading)
next
  case (OverrideLoading st)
  show ?thesis unfolding OverrideLoading using assms by (simp add: consistent_overrideLoading)
qed

lemma unkeyedStarts_Cons: "unkeyedStarts (c # cs) = unkeyedStarts [c] + unkeyedStarts cs"
  by (cases c) simp_all

lemma inheritedStarts_Cons: "inheritedStarts (c # cs) = inheritedStarts [c] + inheritedStarts cs"
  by (cases c) simp_all

lemma unkeyedStarts_append: "unkeyedStarts (cs @ ds) = unkeyedStarts cs + unkeyedStarts ds"
  by (induction cs rule: unkeyedStarts.induct) simp_all

lemma consistent_exec:
  "consistent n s \<Longrightarrow> consistent (n + unkeyedStarts cs + inheritedStarts cs) (exec cs s)"
proof (induction cs arbitrary: n s)
  case Nil
  then show ?case by simp
next
  case (Cons c cs)
  have "consistent (n + unkeyedStarts [c] + inheritedStarts [c] + unkeyedStarts cs + inheritedStarts cs)
          (exec cs (fst (step c s)))"
    using Cons.prems by (intro Cons.IH consistent_step)
  moreover have "n + unkeyedStarts [c] + inheritedStarts [c] + unkeyedStarts cs + inheritedStarts cs
                 = n + unkeyedStarts (c # cs) + inheritedStarts (c # cs)"
    using unkeyedStarts_Cons [of c cs] inheritedStarts_Cons [of c cs] by simp
  ultimately show ?case by simp
qed

lemma consistent_reachable:
  "consistent (unkeyedStarts cs + inheritedStarts cs) (exec cs initial)"
  using consistent_exec [OF consistent_initial, of cs] by simp

section \<open>Counters in reachable states\<close>

lemma step_other_key:
  assumes "callKey c \<noteq> Some k"
  shows "getLocalCounter k (fst (step c s)) = getLocalCounter k s"
proof (cases c)
  case (StartLoading i)
  then show ?thesis using assms
    by (cases i)
       (auto simp: startLoading_def Let_def getLocalCounter_def readProperty_def truthy_def)
next
  case (StopLoading i)
  then show ?thesis using assms
    by (cases i)
       (auto simp: stopLoading_def Let_def getLocalCounter_def readProperty_def truthy_def)
next
  case (OverrideLoading st)
  then show ?thesis
    by (simp add: overrideLoading_def Let_def getLocalCounter_def)
qed

lemma exec_other_keys:
  "\<forall>c \<in> set cs. callKey c \<noteq> Some k \<Longrightarrow> getLocalCounter k (exec cs s) = getLocalCounter k s"
  by (induction cs arbitrary: s) (simp_all add: step_other_key)

lemma step_never_started:
  assumes "c \<noteq> StartLoading (Some k)" and "\<not> isLocalLoading k s"
  shows "\<not> isLocalLoading k (fst (step c s))"
proof (cases "callKey c = Some k")
  case False
  then show ?thesis using assms(2) by (simp add: step_other_key isLocalLoading_def)
next
  case True
  then have "c = StopLoading (Some k)" using assms(1) by (cases c) auto
  then show ?thesis using assms(2) by (simp add: stopLoading_gate_closed isLocalLoading_def)
qed

lemma exec_never_started:
  "StartLoading (Some k) \<notin> set cs \<Longrightarrow> \<not> isLocalLoading k s
     \<Longrightarrow> \<not> isLocalLoading k (exec cs s)"
proof (induction cs arbitrary: s)
  case Nil
  then show ?case by simp
next
  case (Cons c cs)
  have "\<not> isLocalLoading k (fst (step c s))"
    using Cons.prems by (intro step_never_started) auto
  then show ?case using Cons by simp
qed

lemma orphan_stops_unchanged:
  "\<not> isLocalLoading k s \<Longrightarrow> exec (replicate n (StopLoading (Some k))) s = s"
  by (induction n) (simp_all add: stopLoading_gate_closed isLocalLoading_def)

lemma reachable_loadingCount_nonneg: "0 \<le> loadingCount (exec cs initial)"
proof -
  have c: "consistent (unkeyedStarts cs + inheritedStarts cs) (exec cs initial)"
    by (rule consistent_reachable)
  have "0 \<le> sumLocalCounters (exec cs initial)" using c by (rule consistent_sum_nonneg)
  then show ?thesis using c by (simp add: consistent_def)
qed

text \<open>At a key that names no member of \<^verbatim>\<open>Object.prototype\<close> the local counter of
  a reachable state is a number that is not negative, and the global counter of a
  reachable state is the sum of the numeric local counters plus the number of starts
  that raised no numeric local counter.\<close>

lemma reachable_plain_local_counter:
  "k \<notin> set objectPrototypeKeys \<Longrightarrow>
     \<exists>c. getLocalCounter k (exec cs initial) = Number c \<and> 0 \<le> c"
  using consistent_reachable by (rule consistent_read_plain)

lemma reachable_loadingCount_sum:
  "loadingCount (exec cs initial)
     = sumLocalCounters (exec cs initial) + int (unkeyedStarts cs) + int (inheritedStarts cs)"
  using consistent_reachable [of cs] by (simp add: consistent_def)

text \<open>
  Claim C1. In every state that the store can reach, \<^verbatim>\<open>stopLoading\<close> lowers the
  global counter if and only if it is called with an instance key whose local counter
  passes the test \<^verbatim>\<open>localCounter > 0\<close>; it then lowers the global counter and that
  local counter by exactly one and leaves all other local counters alone. Called without
  a key, or with a key whose local counter does not pass the test, it leaves the whole
  store unchanged. (In a reachable state the global counter is at least the local one,
  so \<^verbatim>\<open>Math.max(0, _)\<close> never takes effect; the empty key has no local counter;
  and what is read at a name of \<^verbatim>\<open>Object.prototype\<close> is never a number, so the
  test fails there.)
\<close>

theorem stopLoading_decrements_iff_keyed_and_active:
  "(loadingCount (fst (stopLoading instanceId (exec cs initial))) < loadingCount (exec cs initial))
     = (case instanceId of None \<Rightarrow> False
        | Some k \<Rightarrow> isLocalLoading k (exec cs initial))
   \<and> fst (stopLoading instanceId (exec cs initial)) =
     (case instanceId of
        None \<Rightarrow> exec cs initial
      | Some k \<Rightarrow>
          if isLocalLoading k (exec cs initial)
          then (exec cs initial)
                 \<lparr>loadingCount := loadingCount (exec cs initial) - 1,
                  localCounters := (localCounters (exec cs initial))
                     (k \<mapsto> Number (numberOf (getLocalCounter k (exec cs initial)) - 1))\<rparr>
          else exec cs initial)"
proof (cases instanceId)
  case None
  then show ?thesis by (simp add: stopLoading_gate_closed truthy_def)
next
  case (Some k)
  show ?thesis
  proof (cases "isLocalLoading k (exec cs initial)")
    case True
    then have g: "greaterThanZero (getLocalCounter k (exec cs initial))"
      by (simp add: isLocalLoading_def)
    show ?thesis
      using stopLoading_gate_open [OF consistent_reachable Some g] Some True by simp
  next
    case False
    then show ?thesis using Some by (simp add: stopLoading_gate_closed isLocalLoading_def)
  qed
qed

text \<open>
  Claim C9. Once \<^verbatim>\<open>startLoading\<close> has been called without an instance key, the
  global counter is above 0 after every later sequence of calls, keyed or unkeyed; so
  \<^verbatim>\<open>isGlobalLoading()\<close> is true whenever no override is in place, and only an
  override can make it false.
\<close>

theorem unkeyed_start_irreversible:
  "0 < loadingCount (exec (cs @ StartLoading None # ds) initial)
   \<and> isGlobalLoading (exec (cs @ StartLoading None # ds) initial)
       = (case overrideState (exec (cs @ StartLoading None # ds) initial) of
            None \<Rightarrow> True | Some b \<Rightarrow> b)"
proof -
  let ?cs = "cs @ StartLoading None # ds"
  let ?s = "exec ?cs initial"
  have c: "consistent (unkeyedStarts ?cs + inheritedStarts ?cs) ?s"
    by (rule consistent_reachable)
  have "0 \<le> sumLocalCounters ?s" using c by (rule consistent_sum_nonneg)
  moreover have "0 < unkeyedStarts ?cs"
    by (simp add: unkeyedStarts_append truthy_def)
  ultimately have "0 < loadingCount ?s" using c by (simp add: consistent_def)
  then show ?thesis
    by (simp add: isGlobalLoading_def isLoading_def split: option.splits)
qed

text \<open>
  Claim C5. In every reachable state with no override in which some instance \<open>B\<close> has a
  local counter above 0, \<^verbatim>\<open>isGlobalLoading()\<close> is true. Moreover an instance \<open>A\<close>
  that never called \<^verbatim>\<open>startLoading(A)\<close> may call \<^verbatim>\<open>stopLoading(A)\<close> any
  number of times: the store stays exactly as it was, so the global counter and the
  loading state that \<open>B\<close> started are untouched.
\<close>

theorem active_instance_keeps_loading:
  assumes "overrideState (exec cs initial) = None"
      and "isLocalLoading B (exec cs initial)"
  shows "isGlobalLoading (exec cs initial)
         \<and> (\<forall>A n. StartLoading (Some A) \<notin> set cs \<longrightarrow>
               exec (replicate n (StopLoading (Some A))) (exec cs initial) = exec cs initial)"
proof -
  have "numberOf (getLocalCounter B (exec cs initial)) \<le> loadingCount (exec cs initial)"
    using consistent_reachable by (rule consistent_numberOf_le)
  moreover have "0 < numberOf (getLocalCounter B (exec cs initial))"
    using assms(2) by (cases "getLocalCounter B (exec cs initial)") (simp_all add: isLocalLoading_def)
  ultimately have "isGlobalLoading (exec cs initial)"
    using assms(1) by (simp add: isGlobalLoading_def isLoading_def)
  moreover have "exec (replicate n (StopLoading (Some A))) (exec cs initial) = exec cs initial"
    if "StartLoading (Some A) \<notin> set cs" for A n
  proof -
    have "\<not> isLocalLoading A initial"
      by (simp add: isLocalLoading_def getLocalCounter_def readProperty_def orZero_def initial_def)
    then have "\<not> isLocalLoading A (exec cs initial)"
      using that by (intro exec_never_started)
    then show ?thesis by (rule orphan_stops_unchanged)
  qed
  ultimately show ?thesis by blast
qed

theorem active_instance_keeps_loading_witness:
  "overrideState (exec [StartLoading (Some ''B'')] initial) = None
   \<and> isLocalLoading ''B'' (exec [StartLoading (Some ''B'')] initial)
   \<and> isGlobalLoading (exec [StartLoading (Some ''B'')] initial)
   \<and> exec (replicate 3 (StopLoading (Some ''A''))) (exec [StartLoading (Some ''B'')] initial)
       = exec [StartLoading (Some ''B'')] initial"
proof -
  have h1: "overrideState (exec [StartLoading (Some ''B'')] initial) = None"
    by (simp add: startLoading_def initial_def Let_def truthy_def)
  have h2: "isLocalLoading ''B'' (exec [StartLoading (Some ''B'')] initial)"
    by (simp add: startLoading_def initial_def Let_def truthy_def getLocalCounter_def
          isLocalLoading_def readProperty_def orZero_def objectPrototypeKeys_def)
  have h3: "StartLoading (Some ''A'') \<notin> set [StartLoading (Some ''B'')]" by simp
  show ?thesis using active_instance_keeps_loading [OF h1 h2] h1 h2 h3 by blast
qed

section \<open>Keys that name a member of \<^verbatim>\<open>Object.prototype\<close>\<close>

text \<open>
  Claim C4 asks that every local counter stay at least 0 after every call. The store
  reads its counters from a plain object, and at the key \<^verbatim>\<open>toString\<close> the read
  finds the inherited function: \<^verbatim>\<open>getLocalCounter('toString')\<close> on the fresh store
  is that function, and after \<^verbatim>\<open>startLoading('toString')\<close> the local counter is the
  function's text followed by \<^verbatim>\<open>1\<close>, a string and no number at or above 0.
\<close>

theorem inherited_key_local_counter_not_a_number:
  "getLocalCounter ''toString'' initial = Member ''toString''
   \<and> getLocalCounter ''toString'' (exec [StartLoading (Some ''toString'')] initial)
       = Text ''toString'' 1
   \<and> \<not> (\<exists>c. 0 \<le> c \<and>
          getLocalCounter ''toString'' (exec [StartLoading (Some ''toString'')] initial)
            = Number c)"
  by (simp add: startLoading_def initial_def Let_def truthy_def getLocalCounter_def
        readProperty_def orZero_def objectPrototypeKeys_def)

text \<open>
  Claim C10 asks that the global counter exceed the sum of the local counters by exactly
  the number of unkeyed starts. After the single keyed call
  \<^verbatim>\<open>startLoading('toString')\<close> the global counter is 1 and there was no unkeyed
  start, but the only local counter is a string, so no local counter accounts for the
  start; a following \<^verbatim>\<open>stopLoading('toString')\<close> does not pass the test
  \<^verbatim>\<open>localCounter > 0\<close> and the global counter stays 1.
\<close>

theorem inherited_key_start_breaks_counter_sum:
  "loadingCount (exec [StartLoading (Some ''toString'')] initial) = 1
   \<and> unkeyedStarts [StartLoading (Some ''toString'')] = 0
   \<and> localCounters (exec [StartLoading (Some ''toString'')] initial)
       = [''toString'' \<mapsto> Text ''toString'' 1]
   \<and> sumLocalCounters (exec [StartLoading (Some ''toString'')] initial) = 0
   \<and> loadingCount
        (exec [StartLoading (Some ''toString''), StopLoading (Some ''toString'')] initial) = 1"
  by (simp add: startLoading_def stopLoading_def initial_def Let_def truthy_def
        getLocalCounter_def readProperty_def orZero_def objectPrototypeKeys_def
        sumLocalCounters_def)

section \<open>The hook\<close>

text \<open>
  Claim C7. The hook's \<^verbatim>\<open>startLoading()\<close> and \<^verbatim>\<open>stopLoading()\<close> take no
  argument: they are \<^verbatim>\<open>localStartLoading\<close> and \<^verbatim>\<open>localStopLoading\<close>, which
  forward to the store with the instance identifier that \<^verbatim>\<open>useId()\<close> gave the hook,
  a non-empty string that names no member of \<^verbatim>\<open>Object.prototype\<close>. From the initial
  store, after \<^verbatim>\<open>startLoading(); startLoading()\<close> the hook's \<^verbatim>\<open>isLoading\<close>
  (which is \<^verbatim>\<open>isGlobalLoading()\<close>) is true, after one \<^verbatim>\<open>stopLoading()\<close> it is
  still true, and after a second \<^verbatim>\<open>stopLoading()\<close> it is false.
\<close>

theorem hook_two_starts_two_stops:
  assumes "instanceId \<noteq> []" and "instanceId \<notin> set objectPrototypeKeys"
  shows "isGlobalLoading (fst (localStartLoading instanceId (fst (localStartLoading instanceId initial))))
       \<and> isGlobalLoading
           (fst (localStopLoading instanceId
             (fst (localStartLoading instanceId (fst (localStartLoading instanceId initial))))))
       \<and> \<not> isGlobalLoading
           (fst (localStopLoading instanceId (fst (localStopLoading instanceId
             (fst (localStartLoading instanceId (fst (localStartLoading instanceId initial))))))))"
  using assms
  by (simp add: startLoading_def stopLoading_def initial_def Let_def truthy_def
        isGlobalLoading_def isLoading_def getLocalCounter_def readProperty_def orZero_def
        localStartLoading_def localStopLoading_def isLocalLoading_def)

theorem hook_two_starts_two_stops_witness:
  "'':r0:'' \<noteq> [] \<and> '':r0:'' \<notin> set objectPrototypeKeys
   \<and> isGlobalLoading (fst (localStartLoading '':r0:'' (fst (localStartLoading '':r0:'' initial))))
   \<and> isGlobalLoading
           (fst (localStopLoading '':r0:''
             (fst (localStartLoading '':r0:'' (fst (localStartLoading '':r0:'' initial))))))
   \<and> \<not> isGlobalLoading
           (fst (localStopLoading '':r0:'' (fst (localStopLoading '':r0:''
             (fst (localStartLoading '':r0:'' (fst (localStartLoading '':r0:'' initial))))))))"
proof -
  have h1: "'':r0:'' \<noteq> []" by simp
  have h2: "'':r0:'' \<notin> set objectPrototypeKeys" by (simp add: objectPrototypeKeys_def)
  show ?thesis using hook_two_starts_two_stops [OF h1 h2] h1 h2 by blast
qed


text \<open>
  Claim C8, as amended. \<^verbatim>\<open>asyncUseLoading\<close> always completes with the promise's own
  outcome, the value or the failure, unchanged. It calls \<^verbatim>\<open>startLoading\<close> with the
  instance key before it awaits, and when the promise settles, fulfilled or rejected, it
  runs \<^verbatim>\<open>localStopLoading\<close>, which calls \<^verbatim>\<open>stopLoading\<close> with the key only if
  the key's local counter is then above 0. If the store was in a reachable state, the
  key is one that \<^verbatim>\<open>useId()\<close> gives (non-empty, no member name of
  \<^verbatim>\<open>Object.prototype\<close>) and the calls made while the promise was pending left this
  key's local counter where the start had put it (calls with other keys always do, by
  \<open>exec_other_keys\<close>), then that test succeeds, \<^verbatim>\<open>stopLoading\<close> is called with
  the key, and the local counter is back at its value from before the call.
\<close>

theorem asyncUseLoading_outcome_and_balance:
  "snd (asyncUseLoading instanceId during asyncFunction s) = asyncFunction
   \<and> fst (asyncUseLoading instanceId during asyncFunction s)
       = fst (localStopLoading instanceId
               (exec during (fst (startLoading (Some instanceId) s))))
   \<and> localStopLoading instanceId s
       = (if isLocalLoading instanceId s then stopLoading (Some instanceId) s else (s, []))
   \<and> (instanceId \<noteq> [] \<and> instanceId \<notin> set objectPrototypeKeys
        \<and> getLocalCounter instanceId
             (exec during (fst (localStartLoading instanceId (exec cs initial))))
            = getLocalCounter instanceId (fst (localStartLoading instanceId (exec cs initial)))
       \<longrightarrow> getLocalCounter instanceId (fst (localStartLoading instanceId (exec cs initial)))
             = plusOne (getLocalCounter instanceId (exec cs initial))
           \<and> isLocalLoading instanceId
               (exec during (fst (localStartLoading instanceId (exec cs initial))))
           \<and> fst (asyncUseLoading instanceId during asyncFunction (exec cs initial))
               = fst (stopLoading (Some instanceId)
                       (exec during (fst (startLoading (Some instanceId) (exec cs initial)))))
           \<and> getLocalCounter instanceId
               (fst (asyncUseLoading instanceId during asyncFunction (exec cs initial)))
               = getLocalCounter instanceId (exec cs initial))"
proof -
  have outcome: "snd (asyncUseLoading instanceId during asyncFunction s) = asyncFunction"
    by (cases asyncFunction) (simp_all add: asyncUseLoading_def Let_def)
  have final: "fst (asyncUseLoading instanceId during asyncFunction s)
       = fst (localStopLoading instanceId (exec during (fst (startLoading (Some instanceId) s))))"
    for s
    by (cases asyncFunction) (simp_all add: asyncUseLoading_def Let_def localStartLoading_def)
  have gated: "localStopLoading instanceId s
       = (if isLocalLoading instanceId s then stopLoading (Some instanceId) s else (s, []))"
    by (simp add: localStopLoading_def)
  have balanced:
    "getLocalCounter instanceId (fst (localStartLoading instanceId (exec cs initial)))
       = plusOne (getLocalCounter instanceId (exec cs initial))
     \<and> isLocalLoading instanceId
         (exec during (fst (localStartLoading instanceId (exec cs initial))))
     \<and> fst (asyncUseLoading instanceId during asyncFunction (exec cs initial))
         = fst (stopLoading (Some instanceId)
                 (exec during (fst (startLoading (Some instanceId) (exec cs initial)))))
     \<and> getLocalCounter instanceId
         (fst (asyncUseLoading instanceId during asyncFunction (exec cs initial)))
         = getLocalCounter instanceId (exec cs initial)"
    if key: "instanceId \<noteq> []" "instanceId \<notin> set objectPrototypeKeys"
      and quiet: "getLocalCounter instanceId
             (exec during (fst (localStartLoading instanceId (exec cs initial))))
            = getLocalCounter instanceId (fst (localStartLoading instanceId (exec cs initial)))"
  proof -
    let ?s = "exec cs initial"
    let ?s1 = "fst (localStartLoading instanceId ?s)"
    let ?s2 = "exec during ?s1"
    obtain c where c: "getLocalCounter instanceId ?s = Number c" "0 \<le> c"
      using consistent_read_plain [OF consistent_reachable key(2)] by blast
    have started: "getLocalCounter instanceId ?s1 = plusOne (getLocalCounter instanceId ?s)"
      using key(1)
      by (simp add: localStartLoading_def startLoading_def Let_def truthy_def
            getLocalCounter_def readProperty_def orZero_def)
    have settled: "getLocalCounter instanceId ?s2 = Number (c + 1)"
      using quiet started c by simp
    then have gate: "isLocalLoading instanceId ?s2"
      using c(2) by (simp add: isLocalLoading_def)
    have own: "localCounters ?s2 instanceId = Some (Number (c + 1))"
      using settled key(2) c(2)
      by (auto simp: getLocalCounter_def readProperty_def orZero_def split: option.splits)
    have s1eq: "fst (startLoading (Some instanceId) ?s) = ?s1"
      by (simp add: localStartLoading_def)
    have async: "fst (asyncUseLoading instanceId during asyncFunction ?s)
                 = fst (stopLoading (Some instanceId) ?s2)"
      using gate unfolding final s1eq by (simp add: localStopLoading_def)
    have "getLocalCounter instanceId (fst (stopLoading (Some instanceId) ?s2)) = Number c"
      using key(1) settled own c(2)
      by (simp add: stopLoading_def Let_def truthy_def getLocalCounter_def readProperty_def
            orZero_def)
    then have restored: "getLocalCounter instanceId
                       (fst (asyncUseLoading instanceId during asyncFunction ?s))
                     = getLocalCounter instanceId ?s"
      unfolding async using c(1) by simp
    show ?thesis using started gate async restored unfolding s1eq by blast
  qed
  show ?thesis using outcome final [of s] gated balanced by blast
qed

theorem asyncUseLoading_outcome_and_balance_witness:
  "'':r1:'' \<noteq> [] \<and> '':r1:'' \<notin> set objectPrototypeKeys
   \<and> getLocalCounter '':r1:''
        (exec [StartLoading (Some '':r2:''), StopLoading None]
           (fst (localStartLoading '':r1:'' (exec [StartLoading (Some '':r1:'')] initial))))
       = getLocalCounter '':r1:''
           (fst (localStartLoading '':r1:'' (exec [StartLoading (Some '':r1:'')] initial)))
   \<and> isLocalLoading '':r1:''
        (exec [StartLoading (Some '':r2:''), StopLoading None]
           (fst (localStartLoading '':r1:'' (exec [StartLoading (Some '':r1:'')] initial))))
   \<and> snd (asyncUseLoading '':r1:'' [StartLoading (Some '':r2:''), StopLoading None]
           (Inl ''failure'' :: string + nat) (exec [StartLoading (Some '':r1:'')] initial))
       = Inl ''failure''
   \<and> getLocalCounter '':r1:''
        (fst (asyncUseLoading '':r1:'' [StartLoading (Some '':r2:''), StopLoading None]
           (Inl ''failure'' :: string + nat) (exec [StartLoading (Some '':r1:'')] initial)))
       = Number 1"
proof -
  let ?during = "[StartLoading (Some '':r2:''), StopLoading None]"
  let ?s = "exec [StartLoading (Some '':r1:'')] initial"
  let ?p = "Inl ''failure'' :: string + nat"
  have h1: "'':r1:'' \<noteq> []" by simp
  have h2: "'':r1:'' \<notin> set objectPrototypeKeys" by (simp add: objectPrototypeKeys_def)
  have h3: "getLocalCounter '':r1:'' (exec ?during (fst (localStartLoading '':r1:'' ?s)))
            = getLocalCounter '':r1:'' (fst (localStartLoading '':r1:'' ?s))"
    by (rule exec_other_keys) simp
  have v: "getLocalCounter '':r1:'' ?s = Number 1"
    by (simp add: startLoading_def initial_def Let_def truthy_def getLocalCounter_def
          readProperty_def orZero_def objectPrototypeKeys_def)
  note r = asyncUseLoading_outcome_and_balance [of "'':r1:''" ?during ?p ?s "[StartLoading (Some '':r1:'')]"]
  have a: "isLocalLoading '':r1:'' (exec ?during (fst (localStartLoading '':r1:'' ?s)))"
    using r h1 h2 h3 by blast
  have b: "snd (asyncUseLoading '':r1:'' ?during ?p ?s) = ?p"
    using r by blast
  have "getLocalCounter '':r1:'' (fst (asyncUseLoading '':r1:'' ?during ?p ?s))
        = getLocalCounter '':r1:'' ?s"
    using r h1 h2 h3 by blast
  then have c: "getLocalCounter '':r1:'' (fst (asyncUseLoading '':r1:'' ?during ?p ?s))
                = Number 1"
    by (simp only: v)
  show ?thesis using h1 h2 h3 a b c by blast
qed


text \<open>Claim C8 as it is written makes no such condition, and fails without it. When the same instance wraps
  a promise inside another wrapped promise, the inner call has started before the outer
  one and stops while the outer one is pending: the outer call finds the local counter at
  1 and leaves it at 0. And when the key is stopped while a call that started from 0 is
  pending, \<^verbatim>\<open>localStopLoading\<close> finds the counter at 0 and does not call
  \<^verbatim>\<open>stopLoading\<close> at all (nothing is emitted).\<close>

theorem asyncUseLoading_pending_stop_counterexample:
  "getLocalCounter '':r1:'' (exec [StartLoading (Some '':r1:'')] initial) = Number 1
   \<and> getLocalCounter '':r1:''
        (fst (asyncUseLoading '':r1:'' [StopLoading (Some '':r1:'')]
               (Inr ''nested'' :: string + string)
               (exec [StartLoading (Some '':r1:'')] initial))) = Number 0
   \<and> localStopLoading '':r1:''
        (exec [StopLoading (Some '':r1:'')] (fst (localStartLoading '':r1:'' initial)))
       = (exec [StopLoading (Some '':r1:'')] (fst (localStartLoading '':r1:'' initial)), [])"
  by (simp add: asyncUseLoading_def localStartLoading_def localStopLoading_def
        isLocalLoading_def startLoading_def stopLoading_def initial_def Let_def truthy_def
        getLocalCounter_def readProperty_def orZero_def objectPrototypeKeys_def)

end
